theory Spec2Isabelle
  imports Main
begin

section \<open>The cards table\<close>

text \<open>
  One row of the table \<open>cards\<close> created by \<open>initializeDatabase\<close> in \<open>lib/db.ts\<close>.
  The column \<open>id\<close> is called \<open>card_id\<close> here. Columns declared without \<open>NOT NULL\<close>
  are options. Positions are SQL integers, so they may be negative.
\<close>

record card =
  card_id :: int
  board_id :: int
  title :: string
  description :: "string option"
  assignee :: "string option"
  priority :: string
  status :: "string option"
  position :: int
  created_at :: string
  updated_at :: "string option"

text \<open>
  The table is the list of its rows. \<open>id INTEGER PRIMARY KEY\<close> makes the ids of the
  rows pairwise different.
\<close>

definition primary_key :: "card list \<Rightarrow> bool" where
  "primary_key db = distinct (map card_id db)"

text \<open>\<open>UPDATE cards SET ... WHERE ...\<close>: every row that satisfies the condition is rewritten.\<close>

definition update_where :: "(card \<Rightarrow> bool) \<Rightarrow> (card \<Rightarrow> card) \<Rightarrow> card list \<Rightarrow> card list" where
  "update_where cond upd db = map (\<lambda>c. if cond c then upd c else c) db"

section \<open>The position index\<close>

text \<open>
  A column group is the set of rows that share \<open>board_id\<close> and \<open>priority\<close>. A group of
  \<open>n\<close> rows is in order when its positions, sorted, are \<open>0, 1, ..., n - 1\<close>.
\<close>

definition in_group :: "int \<Rightarrow> string \<Rightarrow> card \<Rightarrow> bool" where
  "in_group b p c = (board_id c = b \<and> priority c = p)"

definition column_group :: "card list \<Rightarrow> int \<Rightarrow> string \<Rightarrow> card list" where
  "column_group db b p = filter (in_group b p) db"

definition group_positions :: "card list \<Rightarrow> int \<Rightarrow> string \<Rightarrow> int list" where
  "group_positions db b p = map position (column_group db b p)"

definition group_ok :: "card list \<Rightarrow> int \<Rightarrow> string \<Rightarrow> bool" where
  "group_ok db b p =
     (sort (group_positions db b p) = map int [0..<length (group_positions db b p)])"

definition position_invariant :: "card list \<Rightarrow> bool" where
  "position_invariant db = (\<forall>c \<in> set db. group_ok db (board_id c) (priority c))"

definition valid_priority :: "string \<Rightarrow> bool" where
  "valid_priority p = (p = ''high'' \<or> p = ''medium'' \<or> p = ''low'')"

section \<open>The move endpoint: \<open>PUT\<close> of \<open>app/api/cards/move/route.ts\<close>\<close>

text \<open>
  The JSON body of the request. A field that the body does not carry is \<open>None\<close>
  (\<open>undefined\<close> after destructuring).
\<close>

record move_request =
  cardId :: "int option"
  boardId :: "int option"
  newPriority :: "string option"
  newPosition :: "int option"

text \<open>The three answers of the handler when the store itself does not fail: 200, 400, 404.\<close>

datatype response = Success | Bad_request | Not_found

text \<open>
  Line 8: \<open>!cardId || !boardId || !newPriority || newPosition === undefined\<close>.
  \<open>!v\<close> holds for an absent field, for the number 0 and for the empty string.
\<close>

definition falsy_number :: "int option \<Rightarrow> bool" where
  "falsy_number v = (case v of None \<Rightarrow> True | Some n \<Rightarrow> n = 0)"

definition falsy_string :: "string option \<Rightarrow> bool" where
  "falsy_string v = (case v of None \<Rightarrow> True | Some s \<Rightarrow> s = [])"

definition missing_fields :: "move_request \<Rightarrow> bool" where
  "missing_fields req =
     (falsy_number (cardId req) \<or> falsy_number (boardId req) \<or>
      falsy_string (newPriority req) \<or> newPosition req = None)"

text \<open>Lines 32 to 59: the sibling shifts, one \<open>UPDATE\<close> after the other.\<close>

definition shift_siblings :: "card list \<Rightarrow> int \<Rightarrow> string \<Rightarrow> int \<Rightarrow> string \<Rightarrow> int \<Rightarrow> card list" where
  "shift_siblings db bid oldPriority oldPosition np npos =
     (if oldPriority \<noteq> np then
        update_where (\<lambda>c. board_id c = bid \<and> priority c = np \<and> position c \<ge> npos)
                     (\<lambda>c. c\<lparr>position := position c + 1\<rparr>)
          (update_where (\<lambda>c. board_id c = bid \<and> priority c = oldPriority \<and> position c > oldPosition)
                        (\<lambda>c. c\<lparr>position := position c - 1\<rparr>) db)
      else if oldPosition < npos then
        update_where (\<lambda>c. board_id c = bid \<and> priority c = oldPriority \<and>
                           position c > oldPosition \<and> position c \<le> npos)
                     (\<lambda>c. c\<lparr>position := position c - 1\<rparr>) db
      else if oldPosition > npos then
        update_where (\<lambda>c. board_id c = bid \<and> priority c = oldPriority \<and>
                           position c \<ge> npos \<and> position c < oldPosition)
                     (\<lambda>c. c\<lparr>position := position c + 1\<rparr>) db
      else db)"

text \<open>
  The handler: the field check, the lookup of the card by id alone, the shifts and the
  final \<open>UPDATE\<close> of the moved card. It returns the answer and the table afterwards.
\<close>

definition PUT :: "card list \<Rightarrow> move_request \<Rightarrow> response \<times> card list" where
  "PUT db req =
     (if missing_fields req then (Bad_request, db)
      else
        let cid = the (cardId req); bid = the (boardId req);
            np = the (newPriority req); npos = the (newPosition req)
        in case filter (\<lambda>c. card_id c = cid) db of
             [] \<Rightarrow> (Not_found, db)
           | row # _ \<Rightarrow>
               (Success,
                update_where (\<lambda>c. card_id c = cid) (\<lambda>c. c\<lparr>priority := np, position := npos\<rparr>)
                  (shift_siblings db bid (priority row) (position row) np npos)))"

definition move_req :: "int \<Rightarrow> int \<Rightarrow> string \<Rightarrow> int \<Rightarrow> move_request" where
  "move_req cid bid np npos =
     \<lparr>cardId = Some cid, boardId = Some bid, newPriority = Some np, newPosition = Some npos\<rparr>"

section \<open>The client: \<open>loadCards\<close> and \<open>handleMoveCard\<close> of the board page\<close>

text \<open>
  \<open>getCardsByBoard\<close> of \<open>lib/db.ts\<close>: the rows of one board, ordered by priority rank,
  then status rank, then position. A \<open>CASE\<close> without a matching branch is \<open>NULL\<close>, which
  SQLite orders first: rank 0. The order of ties is the one a stable sort gives.
\<close>

definition priority_rank :: "string \<Rightarrow> nat" where
  "priority_rank p =
     (if p = ''high'' then 1 else if p = ''medium'' then 2 else if p = ''low'' then 3 else 0)"

definition status_rank :: "string option \<Rightarrow> nat" where
  "status_rank s =
     (let v = (case s of None \<Rightarrow> ''not_started'' | Some x \<Rightarrow> x)
      in if v = ''in_progress'' then 1 else if v = ''not_started'' then 2
         else if v = ''done'' then 3 else 0)"

definition getCardsByBoard :: "card list \<Rightarrow> int \<Rightarrow> card list" where
  "getCardsByBoard db b =
     sort_key (\<lambda>c. priority_rank (priority c))
       (sort_key (\<lambda>c. status_rank (status c))
         (sort_key position (filter (\<lambda>c. board_id c = b) db)))"

text \<open>
  \<open>handleMoveCard\<close>, lines 250 to 298: the value given to \<open>setCards\<close>, or the list
  as it was when the card is not in it (the early return).
\<close>

definition handleMoveCard :: "card list \<Rightarrow> int \<Rightarrow> string \<Rightarrow> int \<Rightarrow> card list" where
  "handleMoveCard cards cid np npos =
     (case find (\<lambda>c. card_id c = cid) cards of
        None \<Rightarrow> cards
      | Some crd \<Rightarrow>
          let oldPriority = priority crd; oldPosition = position crd;
              sameColumn = (oldPriority = np)
          in map (\<lambda>c.
               if card_id c = cid then c\<lparr>priority := np, position := npos\<rparr>
               else if \<not> sameColumn \<and> priority c = oldPriority \<and> position c > oldPosition
                 then c\<lparr>position := position c - 1\<rparr>
               else if \<not> sameColumn \<and> priority c = np \<and> position c \<ge> npos
                 then c\<lparr>position := position c + 1\<rparr>
               else if sameColumn \<and> priority c = oldPriority then
                 (if oldPosition < npos \<and> position c > oldPosition \<and> position c \<le> npos
                    then c\<lparr>position := position c - 1\<rparr>
                  else if oldPosition > npos \<and> position c \<ge> npos \<and> position c < oldPosition
                    then c\<lparr>position := position c + 1\<rparr>
                  else c)
               else c) cards)"

section \<open>\<open>createCard\<close> and \<open>deleteCard\<close> of \<open>lib/db.ts\<close>\<close>

text \<open>\<open>SELECT MAX(position)\<close>: \<open>NULL\<close> over no rows.\<close>

fun sql_max :: "int list \<Rightarrow> int option" where
  "sql_max [] = None"
| "sql_max (x # xs) = (case sql_max xs of None \<Rightarrow> Some x | Some m \<Rightarrow> Some (max x m))"

text \<open>JavaScript \<open>v || d\<close> on a number or \<open>null\<close>: \<open>d\<close> when \<open>v\<close> is \<open>null\<close> or 0.\<close>

definition js_or :: "int option \<Rightarrow> int \<Rightarrow> int" where
  "js_or v d = (case v of None \<Rightarrow> d | Some n \<Rightarrow> if n = 0 then d else n)"

definition next_position :: "card list \<Rightarrow> int \<Rightarrow> string \<Rightarrow> int" where
  "next_position db b p = js_or (sql_max (group_positions db b p)) (- 1) + 1"

text \<open>
  \<open>createCard\<close>: the position is computed, then the row is inserted. The id that
  \<open>AUTOINCREMENT\<close> assigns and the value of \<open>CURRENT_TIMESTAMP\<close> are parameters.
\<close>

definition createCard ::
  "card list \<Rightarrow> int \<Rightarrow> string \<Rightarrow> int \<Rightarrow> string \<Rightarrow> string option \<Rightarrow> string option \<Rightarrow> string \<Rightarrow> string
     \<Rightarrow> int \<times> card list" where
  "createCard db rowid now b ttl descr assg p st =
     (rowid,
      db @ [\<lparr>card_id = rowid, board_id = b, title = ttl, description = descr, assignee = assg,
             priority = p, status = Some st, position = next_position db b p,
             created_at = now, updated_at = Some now\<rparr>])"

text \<open>\<open>deleteCard\<close>: \<open>DELETE FROM cards WHERE id = ?\<close> and nothing else.\<close>

definition deleteCard :: "card list \<Rightarrow> int \<Rightarrow> card list" where
  "deleteCard db i = filter (\<lambda>c. card_id c \<noteq> i) db"

section \<open>The net effect of the shifts on one row\<close>

text \<open>
  The change of position that the \<open>UPDATE\<close> statements of lines 32 to 59 give one row,
  read off the \<open>WHERE\<close> clauses. Lemma \<open>shift_siblings_map\<close> below proves that
  \<open>shift_siblings\<close> adds exactly this number to every row.
\<close>

definition shift_delta :: "int \<Rightarrow> string \<Rightarrow> int \<Rightarrow> string \<Rightarrow> int \<Rightarrow> card \<Rightarrow> int" where
  "shift_delta bid oldPriority oldPosition np npos c =
     (if board_id c \<noteq> bid then 0
      else if oldPriority \<noteq> np then
        (if priority c = oldPriority \<and> position c > oldPosition then - 1
         else if priority c = np \<and> position c \<ge> npos then 1 else 0)
      else if priority c = np \<and> oldPosition < position c \<and> position c \<le> npos then - 1
      else if priority c = np \<and> npos \<le> position c \<and> position c < oldPosition then 1
      else 0)"

section \<open>Test cards\<close>

definition mk_card :: "int \<Rightarrow> int \<Rightarrow> string \<Rightarrow> int \<Rightarrow> card" where
  "mk_card i b p pos =
     \<lparr>card_id = i, board_id = b, title = ''card'', description = None, assignee = None,
      priority = p, status = Some ''not_started'', position = pos,
      created_at = ''2026-01-01'', updated_at = None\<rparr>"

section \<open>Basic facts\<close>

lemma PUT_move_req:
  "PUT db (move_req cid bid np npos) =
     (if cid = 0 \<or> bid = 0 \<or> np = [] then (Bad_request, db)
      else case filter (\<lambda>c. card_id c = cid) db of
             [] \<Rightarrow> (Not_found, db)
           | row # _ \<Rightarrow>
               (Success,
                update_where (\<lambda>c. card_id c = cid) (\<lambda>c. c\<lparr>priority := np, position := npos\<rparr>)
                  (shift_siblings db bid (priority row) (position row) np npos)))"
  by (simp add: PUT_def move_req_def missing_fields_def falsy_number_def falsy_string_def)

lemmas eval_defs = PUT_move_req shift_siblings_def update_where_def position_invariant_def
  group_ok_def group_positions_def column_group_def in_group_def mk_card_def

lemma shift_siblings_map:
  "shift_siblings db bid op opos np npos =
     map (\<lambda>c. c\<lparr>position := position c + shift_delta bid op opos np npos c\<rparr>) db"
  by (auto simp: shift_siblings_def update_where_def shift_delta_def intro!: map_idI[symmetric])

lemma PUT_success:
  assumes "cid \<noteq> 0" "bid \<noteq> 0" "np \<noteq> []"
    and "filter (\<lambda>c. card_id c = cid) db = row # rest"
  shows "PUT db (move_req cid bid np npos) =
     (Success, map (\<lambda>c. if card_id c = cid then c\<lparr>priority := np, position := npos\<rparr>
                        else c\<lparr>position := position c + shift_delta bid (priority row) (position row) np npos c\<rparr>) db)"
  using assms by (simp add: PUT_move_req shift_siblings_map update_where_def comp_def)

lemma primary_key_unique:
  "primary_key db \<Longrightarrow> c \<in> set db \<Longrightarrow> d \<in> set db \<Longrightarrow> card_id c = card_id d \<Longrightarrow> c = d"
  unfolding primary_key_def by (meson distinct_map inj_onD)

lemma filter_id_hd:
  "primary_key db \<Longrightarrow> c \<in> set db \<Longrightarrow> filter (\<lambda>d. card_id d = card_id c) db = [c]"
  unfolding primary_key_def
  by (induction db) (auto simp: filter_empty_conv rev_image_eqI)

section \<open>Same-column moves\<close>

text \<open>
  Claim C2. A same-column move is a request that passes the field check of line 8 and
  names a card whose stored priority is the target priority. The siblings are the other
  rows of the column group (boardId, priority) that the request names. With \<open>row\<close> the
  row the lookup returns: the rows with the card's id get the target priority and position
  and keep every other field; a sibling with position in \<open>(oldPosition, targetPosition]\<close>
  loses one; a sibling with position in \<open>[targetPosition, oldPosition)\<close> gains one; every
  other row is as before. The table keeps its order, so rows are compared index by index.
  The example: A, B, C at 0, 1, 2 and B moved to 0 give A at 1, B at 0, C at 2.
\<close>

theorem same_column_move_shifts:
  assumes "cid \<noteq> 0" "bid \<noteq> 0" "np \<noteq> []"
    and "filter (\<lambda>c. card_id c = cid) db = row # rest"
    and "priority row = np"
    and "PUT db (move_req cid bid np npos) = (r, db')"
  shows "r = Success \<and> length db' = length db \<and>
    (\<forall>i<length db. card_id (db ! i) = cid \<longrightarrow>
        db' ! i = (db ! i)\<lparr>priority := np, position := npos\<rparr>) \<and>
    (\<forall>i<length db. card_id (db ! i) \<noteq> cid \<and> in_group bid np (db ! i) \<and>
        position row < position (db ! i) \<and> position (db ! i) \<le> npos \<longrightarrow>
        db' ! i = (db ! i)\<lparr>position := position (db ! i) - 1\<rparr>) \<and>
    (\<forall>i<length db. card_id (db ! i) \<noteq> cid \<and> in_group bid np (db ! i) \<and>
        npos \<le> position (db ! i) \<and> position (db ! i) < position row \<longrightarrow>
        db' ! i = (db ! i)\<lparr>position := position (db ! i) + 1\<rparr>) \<and>
    (\<forall>i<length db. card_id (db ! i) \<noteq> cid \<and>
        \<not> (in_group bid np (db ! i) \<and>
           (position row < position (db ! i) \<and> position (db ! i) \<le> npos \<or>
            npos \<le> position (db ! i) \<and> position (db ! i) < position row)) \<longrightarrow>
        db' ! i = db ! i) \<and>
    PUT [mk_card 1 1 ''high'' 0, mk_card 2 1 ''high'' 1, mk_card 3 1 ''high'' 2]
        (move_req 2 1 ''high'' 0)
      = (Success, [mk_card 1 1 ''high'' 1, mk_card 2 1 ''high'' 0, mk_card 3 1 ''high'' 2])"
proof -
  have res: "r = Success"
    "db' = map (\<lambda>c. if card_id c = cid then c\<lparr>priority := np, position := npos\<rparr>
                  else c\<lparr>position := position c + shift_delta bid np (position row) np npos c\<rparr>) db"
    using PUT_success [OF assms(1-4), of npos] assms(5,6) by simp_all
  have ex: "PUT [mk_card 1 1 ''high'' 0, mk_card 2 1 ''high'' 1, mk_card 3 1 ''high'' 2]
        (move_req 2 1 ''high'' 0)
      = (Success, [mk_card 1 1 ''high'' 1, mk_card 2 1 ''high'' 0, mk_card 3 1 ''high'' 2])"
    by (simp add: eval_defs)
  show ?thesis
    unfolding res using ex by (simp add: shift_delta_def in_group_def)
qed

theorem same_column_move_shifts_witness:
  "filter (\<lambda>c. card_id c = 2) [mk_card 1 1 ''high'' 0, mk_card 2 1 ''high'' 1, mk_card 3 1 ''high'' 2]
     = [mk_card 2 1 ''high'' 1] \<and>
   priority (mk_card 2 1 ''high'' 1) = ''high'' \<and>
   [mk_card 1 1 ''high'' 1, mk_card 2 1 ''high'' 0, mk_card 3 1 ''high'' 2] ! 0
     = (mk_card 1 1 ''high'' 0)\<lparr>position := 1\<rparr>"
proof -
  let ?db = "[mk_card 1 1 ''high'' 0, mk_card 2 1 ''high'' 1, mk_card 3 1 ''high'' 2]"
  let ?db' = "[mk_card 1 1 ''high'' 1, mk_card 2 1 ''high'' 0, mk_card 3 1 ''high'' 2]"
  have h4: "filter (\<lambda>c. card_id c = 2) ?db = mk_card 2 1 ''high'' 1 # []"
    by (simp add: mk_card_def)
  have h5: "priority (mk_card 2 1 ''high'' 1) = ''high''"
    by (simp add: mk_card_def)
  have h6: "PUT ?db (move_req 2 1 ''high'' 0) = (Success, ?db')"
    by (simp add: eval_defs)
  have "\<forall>i<length ?db. card_id (?db ! i) \<noteq> 2 \<and> in_group 1 ''high'' (?db ! i) \<and>
        0 \<le> position (?db ! i) \<and> position (?db ! i) < position (mk_card 2 1 ''high'' 1) \<longrightarrow>
        ?db' ! i = (?db ! i)\<lparr>position := position (?db ! i) + 1\<rparr>"
    using same_column_move_shifts [OF _ _ _ h4 h5 h6] by simp
  then have "?db' ! 0 = (?db ! 0)\<lparr>position := position (?db ! 0) + 1\<rparr>"
    by (simp add: mk_card_def in_group_def)
  then show ?thesis using h4 h5 by (simp add: mk_card_def)
qed

section \<open>Cross-column moves\<close>

text \<open>
  Claim C3. A cross-column move is a request that passes the field check of line 8 and
  names a card whose stored priority differs from the target priority. With \<open>row\<close> the row
  the lookup returns: in the source group (boardId, oldPriority) the siblings with a position
  above the old position lose one; in the target group (boardId, targetPriority) the siblings
  with a position at or above the target position gain one; the rows with the card's id get
  the target priority and position; every other row is as before.
  The example: high A, B at 0, 1 and medium X at 0; A moved to medium at 1 gives
  high B at 0 and medium X at 0, A at 1.
\<close>

theorem cross_column_move_shifts:
  assumes "cid \<noteq> 0" "bid \<noteq> 0" "np \<noteq> []"
    and "filter (\<lambda>c. card_id c = cid) db = row # rest"
    and "priority row \<noteq> np"
    and "PUT db (move_req cid bid np npos) = (r, db')"
  shows "r = Success \<and> length db' = length db \<and>
    (\<forall>i<length db. card_id (db ! i) = cid \<longrightarrow>
        db' ! i = (db ! i)\<lparr>priority := np, position := npos\<rparr>) \<and>
    (\<forall>i<length db. card_id (db ! i) \<noteq> cid \<and> in_group bid (priority row) (db ! i) \<and>
        position (db ! i) > position row \<longrightarrow>
        db' ! i = (db ! i)\<lparr>position := position (db ! i) - 1\<rparr>) \<and>
    (\<forall>i<length db. card_id (db ! i) \<noteq> cid \<and> in_group bid np (db ! i) \<and>
        position (db ! i) \<ge> npos \<longrightarrow>
        db' ! i = (db ! i)\<lparr>position := position (db ! i) + 1\<rparr>) \<and>
    (\<forall>i<length db. card_id (db ! i) \<noteq> cid \<and>
        \<not> (in_group bid (priority row) (db ! i) \<and> position (db ! i) > position row) \<and>
        \<not> (in_group bid np (db ! i) \<and> position (db ! i) \<ge> npos) \<longrightarrow>
        db' ! i = db ! i) \<and>
    PUT [mk_card 1 1 ''high'' 0, mk_card 2 1 ''high'' 1, mk_card 3 1 ''medium'' 0]
        (move_req 1 1 ''medium'' 1)
      = (Success, [mk_card 1 1 ''medium'' 1, mk_card 2 1 ''high'' 0, mk_card 3 1 ''medium'' 0])"
proof -
  have res: "r = Success"
    "db' = map (\<lambda>c. if card_id c = cid then c\<lparr>priority := np, position := npos\<rparr>
                  else c\<lparr>position := position c + shift_delta bid (priority row) (position row) np npos c\<rparr>) db"
    using PUT_success [OF assms(1-4), of npos] assms(6) by simp_all
  have ex: "PUT [mk_card 1 1 ''high'' 0, mk_card 2 1 ''high'' 1, mk_card 3 1 ''medium'' 0]
        (move_req 1 1 ''medium'' 1)
      = (Success, [mk_card 1 1 ''medium'' 1, mk_card 2 1 ''high'' 0, mk_card 3 1 ''medium'' 0])"
    by (simp add: eval_defs)
  show ?thesis
    unfolding res using ex assms(5) by (simp add: shift_delta_def in_group_def)
qed

theorem cross_column_move_shifts_witness:
  "filter (\<lambda>c. card_id c = 1) [mk_card 1 1 ''high'' 0, mk_card 2 1 ''high'' 1, mk_card 3 1 ''medium'' 0]
     = [mk_card 1 1 ''high'' 0] \<and>
   priority (mk_card 1 1 ''high'' 0) \<noteq> ''medium'' \<and>
   [mk_card 1 1 ''medium'' 1, mk_card 2 1 ''high'' 0, mk_card 3 1 ''medium'' 0] ! 1
     = (mk_card 2 1 ''high'' 1)\<lparr>position := 0\<rparr>"
proof -
  let ?db = "[mk_card 1 1 ''high'' 0, mk_card 2 1 ''high'' 1, mk_card 3 1 ''medium'' 0]"
  let ?db' = "[mk_card 1 1 ''medium'' 1, mk_card 2 1 ''high'' 0, mk_card 3 1 ''medium'' 0]"
  have h4: "filter (\<lambda>c. card_id c = 1) ?db = mk_card 1 1 ''high'' 0 # []"
    by (simp add: mk_card_def)
  have h5: "priority (mk_card 1 1 ''high'' 0) \<noteq> ''medium''"
    by (simp add: mk_card_def)
  have h6: "PUT ?db (move_req 1 1 ''medium'' 1) = (Success, ?db')"
    by (simp add: eval_defs)
  have "\<forall>i<length ?db. card_id (?db ! i) \<noteq> 1 \<and> in_group 1 (priority (mk_card 1 1 ''high'' 0)) (?db ! i) \<and>
        position (?db ! i) > position (mk_card 1 1 ''high'' 0) \<longrightarrow>
        ?db' ! i = (?db ! i)\<lparr>position := position (?db ! i) - 1\<rparr>"
    using cross_column_move_shifts [OF _ _ _ h4 h5 h6] by simp
  then have "?db' ! 1 = (?db ! 1)\<lparr>position := position (?db ! 1) - 1\<rparr>"
    by (simp add: mk_card_def in_group_def)
  then show ?thesis using h4 h5 by (simp add: mk_card_def)
qed

section \<open>Rejected requests\<close>

text \<open>
  Claim C5. A request whose cardId references no row of the table never writes and never
  succeeds; when it passes the field check of line 8 (which runs before the lookup of
  line 16) the answer is the not-found error.
\<close>

theorem unknown_card_not_found:
  assumes "\<forall>c \<in> set db. Some (card_id c) \<noteq> cardId req"
  shows "snd (PUT db req) = db \<and> fst (PUT db req) \<noteq> Success \<and>
         (\<not> missing_fields req \<longrightarrow> PUT db req = (Not_found, db))"
proof (cases "missing_fields req")
  case True
  then show ?thesis by (simp add: PUT_def)
next
  case False
  then have "filter (\<lambda>c. card_id c = the (cardId req)) db = []"
    using assms
    by (auto simp: filter_empty_conv missing_fields_def falsy_number_def split: option.splits)
  then show ?thesis using False by (simp add: PUT_def)
qed

theorem unknown_card_not_found_witness:
  "\<not> missing_fields (move_req 7 1 ''high'' 0) \<and>
   PUT [mk_card 1 1 ''high'' 0] (move_req 7 1 ''high'' 0) = (Not_found, [mk_card 1 1 ''high'' 0])"
  using unknown_card_not_found [of "[mk_card 1 1 ''high'' 0]" "move_req 7 1 ''high'' 0"]
  by (simp add: move_req_def mk_card_def missing_fields_def falsy_number_def falsy_string_def)

text \<open>
  Claim C6, as stated, fails: the priority \<open>urgent\<close> is none of high, medium, low, and
  the handler answers success and writes it into the row.
\<close>

theorem invalid_priority_accepted:
  "\<not> valid_priority ''urgent'' \<and>
   PUT [mk_card 1 1 ''high'' 0] (move_req 1 1 ''urgent'' 0) = (Success, [mk_card 1 1 ''urgent'' 0]) \<and>
   [mk_card 1 1 ''urgent'' 0] \<noteq> [mk_card 1 1 ''high'' 0]"
  by (simp add: eval_defs valid_priority_def)

text \<open>
  Claim C6, amended. The handler answers with the 400 error exactly when the field check of
  line 8 fails (cardId, boardId or newPriority absent, 0 or empty, or newPosition absent),
  and then the table is unchanged. No other property of the priority or the position is
  checked.
\<close>

theorem bad_request_iff_missing_fields:
  "(fst (PUT db req) = Bad_request \<longleftrightarrow> missing_fields req) \<and>
   (missing_fields req \<longrightarrow> PUT db req = (Bad_request, db))"
  by (auto simp: PUT_def Let_def split: list.splits)

theorem bad_request_iff_missing_fields_witness:
  "missing_fields \<lparr>cardId = Some 1, boardId = None, newPriority = Some ''high'', newPosition = Some 0\<rparr> \<and>
   PUT [mk_card 1 1 ''high'' 0]
       \<lparr>cardId = Some 1, boardId = None, newPriority = Some ''high'', newPosition = Some 0\<rparr>
     = (Bad_request, [mk_card 1 1 ''high'' 0])"
  using bad_request_iff_missing_fields [of "[mk_card 1 1 ''high'' 0]"
      "\<lparr>cardId = Some 1, boardId = None, newPriority = Some ''high'', newPosition = Some 0\<rparr>"]
  by (simp add: missing_fields_def falsy_number_def)

section \<open>The move to the card's own place\<close>

text \<open>
  Claim C7. In a table with pairwise different ids, a request that names an existing card
  and targets its stored priority and position leaves the table as it was: every field of
  every row, the moved one included. This holds whatever boardId the request carries.
\<close>

theorem move_to_own_place_is_noop:
  assumes "primary_key db" and "c \<in> set db"
  shows "snd (PUT db \<lparr>cardId = Some (card_id c), boardId = bo,
                      newPriority = Some (priority c), newPosition = Some (position c)\<rparr>) = db"
proof (cases "missing_fields \<lparr>cardId = Some (card_id c), boardId = bo,
                      newPriority = Some (priority c), newPosition = Some (position c)\<rparr>")
  case True
  then show ?thesis by (simp add: PUT_def)
next
  case False
  have sel: "filter (\<lambda>d. card_id d = card_id c) db = [c]"
    using assms by (rule filter_id_hd)
  have "(if card_id d = card_id c then d\<lparr>priority := priority c, position := position c\<rparr> else d) = d"
    if "d \<in> set db" for d
  proof (cases "card_id d = card_id c")
    case True
    then have "d = c" using primary_key_unique [OF assms(1) that assms(2)] by simp
    then show ?thesis by simp
  next
    case False
    then show ?thesis by simp
  qed
  then have "update_where (\<lambda>d. card_id d = card_id c)
          (\<lambda>d. d\<lparr>priority := priority c, position := position c\<rparr>) db = db"
    unfolding update_where_def by (intro map_idI)
  then show ?thesis
    using False by (simp add: PUT_def sel shift_siblings_def)
qed

theorem move_to_own_place_is_noop_witness:
  "primary_key [mk_card 1 1 ''high'' 0, mk_card 2 1 ''high'' 1] \<and>
   mk_card 2 1 ''high'' 1 \<in> set [mk_card 1 1 ''high'' 0, mk_card 2 1 ''high'' 1] \<and>
   PUT [mk_card 1 1 ''high'' 0, mk_card 2 1 ''high'' 1] (move_req 2 1 ''high'' 1)
     = (Success, [mk_card 1 1 ''high'' 0, mk_card 2 1 ''high'' 1])"
  using move_to_own_place_is_noop [of "[mk_card 1 1 ''high'' 0, mk_card 2 1 ''high'' 1]"
      "mk_card 2 1 ''high'' 1" "Some 1"]
  by (simp add: eval_defs primary_key_def)

section \<open>Creating a card\<close>

text \<open>
  Claim C8 at a group of one card. The group of board 1, priority high holds one card, at
  position 0. \<open>MAX(position)\<close> is 0, \<open>0 || -1\<close> is \<open>-1\<close>, and the new card gets position 0,
  not 1: two cards share position 0 afterwards.
\<close>

theorem createCard_second_card_position:
  "group_positions [mk_card 1 1 ''high'' 0] 1 ''high'' = [0] \<and>
   position (last (snd (createCard [mk_card 1 1 ''high'' 0] 2 ''now'' 1 ''t'' None None ''high'' ''not_started''))) = 0 \<and>
   \<not> group_ok (snd (createCard [mk_card 1 1 ''high'' 0] 2 ''now'' 1 ''t'' None None ''high'' ''not_started''))
        1 ''high''"
  by (simp add: createCard_def next_position_def js_or_def eval_defs)

section \<open>A request that names another board\<close>

text \<open>
  Claim C10. The lookup is by id alone and the shifts are scoped by the boardId of the
  request. For a request that passes the field check and names a card \<open>m\<close> stored on another
  board: the answer is success; \<open>m\<close> gets the target priority and position; every other row that
  is not on the named board is unchanged (no shift on the board of \<open>m\<close>); every row of the
  named board is what the shift statements make of it; and \<open>m\<close> is in neither of the two
  groups that the shifts address. The example: boards 1 and 2, each with high cards at 0, 1;
  card 1 of board 1 moved to position 1 with boardId 2. Before, the invariant holds; after,
  board 1 has two cards at 1 and board 2 has two cards at 0.
\<close>

theorem board_mismatch_not_checked:
  assumes "cid \<noteq> 0" "bid \<noteq> 0" "np \<noteq> []"
    and "primary_key db" and "m \<in> set db" and "card_id m = cid"
    and "board_id m \<noteq> bid"
    and "PUT db (move_req cid bid np npos) = (r, db')"
  shows "r = Success \<and> length db' = length db \<and>
    (\<forall>i<length db. db ! i = m \<longrightarrow> db' ! i = m\<lparr>priority := np, position := npos\<rparr>) \<and>
    (\<forall>i<length db. db ! i \<noteq> m \<and> board_id (db ! i) \<noteq> bid \<longrightarrow> db' ! i = db ! i) \<and>
    (\<forall>i<length db. board_id (db ! i) = bid \<longrightarrow>
        db' ! i = shift_siblings db bid (priority m) (position m) np npos ! i) \<and>
    (\<forall>c \<in> set (column_group db bid (priority m)) \<union> set (column_group db bid np). c \<noteq> m) \<and>
    (position_invariant
       [mk_card 1 1 ''high'' 0, mk_card 2 1 ''high'' 1, mk_card 3 2 ''high'' 0, mk_card 4 2 ''high'' 1] \<and>
     PUT [mk_card 1 1 ''high'' 0, mk_card 2 1 ''high'' 1, mk_card 3 2 ''high'' 0, mk_card 4 2 ''high'' 1]
         (move_req 1 2 ''high'' 1)
       = (Success,
          [mk_card 1 1 ''high'' 1, mk_card 2 1 ''high'' 1, mk_card 3 2 ''high'' 0, mk_card 4 2 ''high'' 0]) \<and>
     \<not> group_ok
          [mk_card 1 1 ''high'' 1, mk_card 2 1 ''high'' 1, mk_card 3 2 ''high'' 0, mk_card 4 2 ''high'' 0]
          1 ''high'' \<and>
     \<not> group_ok
          [mk_card 1 1 ''high'' 1, mk_card 2 1 ''high'' 1, mk_card 3 2 ''high'' 0, mk_card 4 2 ''high'' 0]
          2 ''high'')"
proof -
  have sel: "filter (\<lambda>c. card_id c = cid) db = m # []"
    using filter_id_hd [OF assms(4,5)] assms(6) by simp
  have res: "r = Success"
    "db' = map (\<lambda>c. if card_id c = cid then c\<lparr>priority := np, position := npos\<rparr>
                  else c\<lparr>position := position c + shift_delta bid (priority m) (position m) np npos c\<rparr>) db"
    using PUT_success [OF assms(1-3) sel, of npos] assms(8) by simp_all
  have uniq: "\<And>c. c \<in> set db \<Longrightarrow> card_id c = cid \<longleftrightarrow> c = m"
    using primary_key_unique [OF assms(4) _ assms(5)] assms(6) by auto
  have a: "\<forall>i<length db. db ! i = m \<longrightarrow> db' ! i = m\<lparr>priority := np, position := npos\<rparr>"
    unfolding res using assms(6) by simp
  have b: "\<forall>i<length db. db ! i \<noteq> m \<and> board_id (db ! i) \<noteq> bid \<longrightarrow> db' ! i = db ! i"
    unfolding res using uniq by (simp add: shift_delta_def)
  have c: "\<forall>i<length db. board_id (db ! i) = bid \<longrightarrow>
        db' ! i = shift_siblings db bid (priority m) (position m) np npos ! i"
    unfolding res shift_siblings_map using uniq assms(7) by auto
  have d: "\<forall>c \<in> set (column_group db bid (priority m)) \<union> set (column_group db bid np). c \<noteq> m"
    using assms(7) by (auto simp: column_group_def in_group_def)
  have ex: "position_invariant
       [mk_card 1 1 ''high'' 0, mk_card 2 1 ''high'' 1, mk_card 3 2 ''high'' 0, mk_card 4 2 ''high'' 1] \<and>
     PUT [mk_card 1 1 ''high'' 0, mk_card 2 1 ''high'' 1, mk_card 3 2 ''high'' 0, mk_card 4 2 ''high'' 1]
         (move_req 1 2 ''high'' 1)
       = (Success,
          [mk_card 1 1 ''high'' 1, mk_card 2 1 ''high'' 1, mk_card 3 2 ''high'' 0, mk_card 4 2 ''high'' 0]) \<and>
     \<not> group_ok
          [mk_card 1 1 ''high'' 1, mk_card 2 1 ''high'' 1, mk_card 3 2 ''high'' 0, mk_card 4 2 ''high'' 0]
          1 ''high'' \<and>
     \<not> group_ok
          [mk_card 1 1 ''high'' 1, mk_card 2 1 ''high'' 1, mk_card 3 2 ''high'' 0, mk_card 4 2 ''high'' 0]
          2 ''high''"
    by (simp add: eval_defs)
  show ?thesis using res(1) a b c d ex unfolding res(2) by simp
qed

theorem board_mismatch_not_checked_witness:
  "primary_key [mk_card 1 1 ''high'' 0, mk_card 2 1 ''high'' 1, mk_card 3 2 ''high'' 0, mk_card 4 2 ''high'' 1] \<and>
   mk_card 1 1 ''high'' 0 \<in> set [mk_card 1 1 ''high'' 0, mk_card 2 1 ''high'' 1, mk_card 3 2 ''high'' 0, mk_card 4 2 ''high'' 1] \<and>
   board_id (mk_card 1 1 ''high'' 0) \<noteq> 2 \<and>
   [mk_card 1 1 ''high'' 1, mk_card 2 1 ''high'' 1, mk_card 3 2 ''high'' 0, mk_card 4 2 ''high'' 0] ! 1
     = mk_card 2 1 ''high'' 1"
proof -
  let ?db = "[mk_card 1 1 ''high'' 0, mk_card 2 1 ''high'' 1, mk_card 3 2 ''high'' 0, mk_card 4 2 ''high'' 1]"
  let ?db' = "[mk_card 1 1 ''high'' 1, mk_card 2 1 ''high'' 1, mk_card 3 2 ''high'' 0, mk_card 4 2 ''high'' 0]"
  have h4: "primary_key ?db" by (simp add: primary_key_def mk_card_def)
  have h5: "mk_card 1 1 ''high'' 0 \<in> set ?db" by simp
  have h6: "card_id (mk_card 1 1 ''high'' 0) = 1" by (simp add: mk_card_def)
  have h7: "board_id (mk_card 1 1 ''high'' 0) \<noteq> 2" by (simp add: mk_card_def)
  have h8: "PUT ?db (move_req 1 2 ''high'' 1) = (Success, ?db')" by (simp add: eval_defs)
  have "\<forall>i<length ?db. ?db ! i \<noteq> mk_card 1 1 ''high'' 0 \<and> board_id (?db ! i) \<noteq> 2 \<longrightarrow> ?db' ! i = ?db ! i"
    using board_mismatch_not_checked [OF _ _ _ h4 h5 h6 h7 h8] by simp
  then have "?db' ! 1 = ?db ! 1" by (simp add: mk_card_def)
  then show ?thesis using h4 h5 h7 by simp
qed

section \<open>The optimistic prediction and the endpoint\<close>

lemma find_None_filter: "find P xs = None \<Longrightarrow> filter P xs = []"
  by (simp add: find_None_iff filter_empty_conv)

lemma find_Some_filter: "find P xs = Some x \<Longrightarrow> \<exists>rest. filter P xs = x # rest"
  by (induction xs) (auto split: if_splits)

lemma set_getCardsByBoard: "set (getCardsByBoard db b) = {c \<in> set db. board_id c = b}"
  by (auto simp: getCardsByBoard_def)

lemma client_row:
  assumes "board_id c = b"
  shows "(if op \<noteq> np \<and> priority c = op \<and> position c > opos
             then c\<lparr>position := position c - 1\<rparr>
           else if op \<noteq> np \<and> priority c = np \<and> position c \<ge> npos
             then c\<lparr>position := position c + 1\<rparr>
           else if op = np \<and> priority c = op then
             (if opos < npos \<and> position c > opos \<and> position c \<le> npos
                then c\<lparr>position := position c - 1\<rparr>
              else if opos > npos \<and> position c \<ge> npos \<and> position c < opos
                then c\<lparr>position := position c + 1\<rparr>
              else c)
           else c) = c\<lparr>position := position c + shift_delta b op opos np npos c\<rparr>"
proof (cases "op = np")
  case True
  then show ?thesis using assms by (simp add: shift_delta_def)
next
  case False
  then show ?thesis using assms by (simp add: shift_delta_def)
qed

lemma handleMoveCard_found:
  assumes "find (\<lambda>c. card_id c = cid) cs = Some x"
  shows "handleMoveCard cs cid np npos =
     map (\<lambda>c. if card_id c = cid then c\<lparr>priority := np, position := npos\<rparr>
               else if priority x \<noteq> np \<and> priority c = priority x \<and> position c > position x
                 then c\<lparr>position := position c - 1\<rparr>
               else if priority x \<noteq> np \<and> priority c = np \<and> position c \<ge> npos
                 then c\<lparr>position := position c + 1\<rparr>
               else if priority x = np \<and> priority c = priority x then
                 (if position x < npos \<and> position c > position x \<and> position c \<le> npos
                    then c\<lparr>position := position c - 1\<rparr>
                  else if position x > npos \<and> position c \<ge> npos \<and> position c < position x
                    then c\<lparr>position := position c + 1\<rparr>
                  else c)
               else c) cs"
  unfolding handleMoveCard_def assms by (simp only: option.case Let_def)

lemma handleMoveCard_board:
  assumes "find (\<lambda>c. card_id c = cid) cs = Some x"
    and "\<forall>c \<in> set cs. board_id c = b"
  shows "handleMoveCard cs cid np npos =
     map (\<lambda>c. if card_id c = cid then c\<lparr>priority := np, position := npos\<rparr>
               else c\<lparr>position := position c + shift_delta b (priority x) (position x) np npos c\<rparr>) cs"
  unfolding handleMoveCard_found [OF assms(1)]
proof (rule map_cong [OF refl])
  fix c assume "c \<in> set cs"
  then have b: "board_id c = b" using assms(2) by blast
  show "(if card_id c = cid then c\<lparr>priority := np, position := npos\<rparr>
               else if priority x \<noteq> np \<and> priority c = priority x \<and> position c > position x
                 then c\<lparr>position := position c - 1\<rparr>
               else if priority x \<noteq> np \<and> priority c = np \<and> position c \<ge> npos
                 then c\<lparr>position := position c + 1\<rparr>
               else if priority x = np \<and> priority c = priority x then
                 (if position x < npos \<and> position c > position x \<and> position c \<le> npos
                    then c\<lparr>position := position c - 1\<rparr>
                  else if position x > npos \<and> position c \<ge> npos \<and> position c < position x
                    then c\<lparr>position := position c + 1\<rparr>
                  else c)
               else c) =
        (if card_id c = cid then c\<lparr>priority := np, position := npos\<rparr>
               else c\<lparr>position := position c + shift_delta b (priority x) (position x) np npos c\<rparr>)"
    using client_row [OF b, of "priority x" np "position x" npos] by (simp only: if_cancel refl split: if_split)
qed

text \<open>
  Claim C4. The list the client holds is what \<open>loadCards\<close> fetched: \<open>getCardsByBoard\<close> of
  the page's board, which the page loads only when its board id is not 0 (line 52). For a
  card id other than 0 (ids come from \<open>AUTOINCREMENT\<close>) and a priority of the client's type
  (high, medium or low), the list that \<open>handleMoveCard\<close> passes to \<open>setCards\<close> is the table
  that the endpoint produces from the same list and the request that \<open>handleMoveCard\<close> sends:
  every row has the same fields in both, so the same priority and position. When the card
  is not in the list, both leave the list as it is.
\<close>

theorem optimistic_matches_server:
  assumes "b \<noteq> 0" "cid \<noteq> 0" "valid_priority np"
  shows "snd (PUT (getCardsByBoard db b) (move_req cid b np npos))
           = handleMoveCard (getCardsByBoard db b) cid np npos"
proof -
  define cs where "cs = getCardsByBoard db b"
  have np: "np \<noteq> []" using assms(3) by (auto simp: valid_priority_def)
  have board: "\<forall>c \<in> set cs. board_id c = b"
    by (simp add: cs_def set_getCardsByBoard)
  have "snd (PUT cs (move_req cid b np npos)) = handleMoveCard cs cid np npos"
  proof (cases "find (\<lambda>c. card_id c = cid) cs")
    case None
    have "handleMoveCard cs cid np npos = cs"
      unfolding handleMoveCard_def None by simp
    moreover have "snd (PUT cs (move_req cid b np npos)) = cs"
      unfolding PUT_move_req find_None_filter [OF None] by simp
    ultimately show ?thesis by simp
  next
    case (Some x)
    then obtain rest where sel: "filter (\<lambda>c. card_id c = cid) cs = x # rest"
      using find_Some_filter [OF Some] by blast
    show ?thesis
      unfolding PUT_success [OF assms(2,1) np sel] handleMoveCard_board [OF Some board]
      by (simp only: snd_conv)
  qed
  then show ?thesis by (simp only: cs_def)
qed

theorem optimistic_matches_server_witness:
  "valid_priority ''medium'' \<and>
   handleMoveCard
     (getCardsByBoard [mk_card 1 1 ''high'' 0, mk_card 2 1 ''high'' 1, mk_card 3 1 ''medium'' 0, mk_card 4 2 ''high'' 0] 1)
     1 ''medium'' 1
   = [mk_card 1 1 ''medium'' 1, mk_card 2 1 ''high'' 0, mk_card 3 1 ''medium'' 0]"
proof -
  let ?db = "[mk_card 1 1 ''high'' 0, mk_card 2 1 ''high'' 1, mk_card 3 1 ''medium'' 0, mk_card 4 2 ''high'' 0]"
  have v: "valid_priority ''medium''" by (simp add: valid_priority_def)
  have snap: "getCardsByBoard ?db 1 = [mk_card 1 1 ''high'' 0, mk_card 2 1 ''high'' 1, mk_card 3 1 ''medium'' 0]"
    by (simp add: getCardsByBoard_def mk_card_def priority_rank_def status_rank_def)
  have "snd (PUT (getCardsByBoard ?db 1) (move_req 1 1 ''medium'' 1))
          = handleMoveCard (getCardsByBoard ?db 1) 1 ''medium'' 1"
    using optimistic_matches_server [OF _ _ v, of 1 1 ?db 1] by simp
  moreover have "snd (PUT (getCardsByBoard ?db 1) (move_req 1 1 ''medium'' 1))
      = [mk_card 1 1 ''medium'' 1, mk_card 2 1 ''high'' 0, mk_card 3 1 ''medium'' 0]"
    unfolding snap by (simp add: eval_defs)
  ultimately show ?thesis using v by simp
qed

section \<open>Groups in order: characterisations\<close>

lemma sorted_positions_iff:
  fixes ps :: "int list"
  shows "sort ps = map int [0..<length ps] \<longleftrightarrow>
         distinct ps \<and> set ps = {0..<int (length ps)}"
proof
  assume eq: "sort ps = map int [0..<length ps]"
  have "distinct (sort ps)" unfolding eq by (simp add: distinct_map)
  then have d: "distinct ps" by simp
  have "set (sort ps) = int ` {0..<length ps}" unfolding eq by simp
  then have "set ps = {0..<int (length ps)}"
    by (simp add: image_int_atLeastLessThan)
  with d show "distinct ps \<and> set ps = {0..<int (length ps)}" by simp
next
  assume a: "distinct ps \<and> set ps = {0..<int (length ps)}"
  have s1: "sorted (sort ps)" "distinct (sort ps)" using a by simp_all
  have s2: "sorted (map int [0..<length ps])"
    by (simp add: sorted_map sorted_wrt_iff_nth_less)
  have d2: "distinct (map int [0..<length ps])" by (simp add: distinct_map)
  have "set (sort ps) = set (map int [0..<length ps])"
    using a by (simp add: image_int_atLeastLessThan)
  then show "sort ps = map int [0..<length ps]"
    using s1 s2 d2 sorted_distinct_set_unique by blast
qed

lemma sorted_positions_iff_range:
  fixes ps :: "int list"
  shows "sort ps = map int [0..<length ps] \<longleftrightarrow>
         distinct ps \<and> (\<forall>x \<in> set ps. 0 \<le> x \<and> x < int (length ps))"
proof -
  have "set ps = {0..<int (length ps)}"
    if d: "distinct ps" and r: "\<forall>x \<in> set ps. 0 \<le> x \<and> x < int (length ps)"
  proof (rule card_subset_eq)
    show "finite {0..<int (length ps)}" by simp
    show "set ps \<subseteq> {0..<int (length ps)}" using r by auto
    show "card (set ps) = card {0..<int (length ps)}"
      using d by (simp add: distinct_card)
  qed
  then show ?thesis unfolding sorted_positions_iff by auto
qed

lemma group_ok_iff:
  assumes "distinct db"
  shows "group_ok db b p \<longleftrightarrow>
     (\<forall>c \<in> set db. in_group b p c \<longrightarrow>
         0 \<le> position c \<and> position c < int (length (column_group db b p))) \<and>
     (\<forall>c \<in> set db. \<forall>d \<in> set db. in_group b p c \<longrightarrow> in_group b p d \<longrightarrow>
         position c = position d \<longrightarrow> c = d)"
proof -
  have dg: "distinct (column_group db b p)"
    using assms by (simp add: column_group_def)
  have sg: "set (column_group db b p) = {c \<in> set db. in_group b p c}"
    by (simp add: column_group_def)
  show ?thesis
    unfolding group_ok_def sorted_positions_iff_range group_positions_def
    by (auto simp: distinct_map dg sg inj_on_def)
qed

lemma length_filter_change_one:
  assumes "distinct db" and "m \<in> set db"
    and "\<forall>c \<in> set db. c \<noteq> m \<longrightarrow> Q c = P c"
  shows "length (filter Q db) + (if P m then 1 else 0)
       = length (filter P db) + (if Q m then 1 else 0)"
  using assms
proof (induction db)
  case Nil
  then show ?case by simp
next
  case (Cons x xs)
  show ?case
  proof (cases "x = m")
    case True
    then have "m \<notin> set xs" using Cons.prems(1) by simp
    then have "filter Q xs = filter P xs"
      using Cons.prems(3) by (intro filter_cong) auto
    then show ?thesis using True by simp
  next
    case False
    then have "m \<in> set xs" using Cons.prems(2) by simp
    moreover have "Q x = P x" using Cons.prems(3) False by simp
    ultimately show ?thesis using Cons by simp
  qed
qed

lemma position_invariant_all_groups:
  "position_invariant db \<longleftrightarrow> (\<forall>b p. group_ok db b p)"
proof
  assume inv: "position_invariant db"
  show "\<forall>b p. group_ok db b p"
  proof (intro allI)
    fix b p
    show "group_ok db b p"
    proof (cases "column_group db b p")
      case Nil
      then show ?thesis by (simp add: group_ok_def group_positions_def)
    next
      case (Cons c cs)
      then have "c \<in> set (column_group db b p)" by simp
      then have "c \<in> set db" "board_id c = b" "priority c = p"
        by (simp_all add: column_group_def in_group_def)
      then show ?thesis using inv by (auto simp: position_invariant_def)
    qed
  qed
next
  assume "\<forall>b p. group_ok db b p"
  then show "position_invariant db" by (simp add: position_invariant_def)
qed

lemma group_ok_mapI:
  assumes pk: "primary_key db" and idF: "\<And>c. card_id (F c) = card_id c"
    and R: "\<And>c. c \<in> set db \<Longrightarrow> in_group b p (F c) \<Longrightarrow>
              0 \<le> position (F c) \<and>
              position (F c) < int (length (filter (\<lambda>c. in_group b p (F c)) db))"
    and I: "\<And>c d. c \<in> set db \<Longrightarrow> d \<in> set db \<Longrightarrow> in_group b p (F c) \<Longrightarrow>
              in_group b p (F d) \<Longrightarrow> position (F c) = position (F d) \<Longrightarrow> c = d"
  shows "group_ok (map F db) b p"
proof -
  have "distinct (map card_id (map F db))"
    using pk by (simp add: primary_key_def comp_def idF)
  then have dF: "distinct (map F db)" by (simp only: distinct_map [of card_id])
  have len: "length (column_group (map F db) b p) = length (filter (\<lambda>c. in_group b p (F c)) db)"
    by (simp add: column_group_def filter_map comp_def)
  show ?thesis
    unfolding group_ok_iff [OF dF] len
    using R I by auto
qed

section \<open>The move endpoint and the position invariant\<close>

text \<open>
  Claim C1, as stated, fails. The group of board 1, priority high holds A, B, C at 0, 1, 2
  and is in order; the request moves A within its column to position 3, the group size,
  which the claim admits. The handler answers success; B and C go to 0 and 1, A goes to 3,
  and the positions 0, 1, 3 leave a gap.
\<close>

theorem same_column_append_leaves_gap:
  "group_ok [mk_card 1 1 ''high'' 0, mk_card 2 1 ''high'' 1, mk_card 3 1 ''high'' 2] 1 ''high'' \<and>
   valid_priority ''high'' \<and>
   (0::int) \<le> 3 \<and>
   3 \<le> int (length (column_group [mk_card 1 1 ''high'' 0, mk_card 2 1 ''high'' 1, mk_card 3 1 ''high'' 2] 1 ''high'')) \<and>
   PUT [mk_card 1 1 ''high'' 0, mk_card 2 1 ''high'' 1, mk_card 3 1 ''high'' 2] (move_req 1 1 ''high'' 3)
     = (Success, [mk_card 1 1 ''high'' 3, mk_card 2 1 ''high'' 0, mk_card 3 1 ''high'' 1]) \<and>
   \<not> group_ok [mk_card 1 1 ''high'' 3, mk_card 2 1 ''high'' 0, mk_card 3 1 ''high'' 1] 1 ''high''"
  by (simp add: eval_defs valid_priority_def)

text \<open>
  Claim C1, amended. In a table with pairwise different ids whose groups are all in order,
  a request that names an existing card \<open>m\<close> and the board of \<open>m\<close>, with a target position
  from 0 to the size of the target group for a move to another column, and from 0 to that
  size minus one for a move within the column of \<open>m\<close>, leaves every group in order. The
  target priority may be any string. (A request that fails the field check changes nothing.)
\<close>

theorem valid_move_keeps_invariant:
  assumes pk: "primary_key db" and inv: "position_invariant db"
    and m: "m \<in> set db" and bm: "board_id m = bid"
    and lo: "0 \<le> npos"
    and hi: "npos \<le> (if priority m = np then int (length (column_group db bid np)) - 1
                      else int (length (column_group db bid np)))"
  shows "position_invariant (snd (PUT db (move_req (card_id m) bid np npos)))"
proof (cases "card_id m = 0 \<or> bid = 0 \<or> np = []")
  case True
  then show ?thesis using inv by (auto simp: PUT_move_req)
next
  case False
  define F where "F = (\<lambda>c. if card_id c = card_id m then c\<lparr>priority := np, position := npos\<rparr>
      else c\<lparr>position := position c + shift_delta bid (priority m) (position m) np npos c\<rparr>)"
  have sel: "filter (\<lambda>c. card_id c = card_id m) db = m # []"
    using filter_id_hd [OF pk m] by simp
  have res: "snd (PUT db (move_req (card_id m) bid np npos)) = map F db"
    using False PUT_success [OF _ _ _ sel, of bid np npos] by (simp add: F_def)
  have dist: "distinct db" using pk by (simp add: primary_key_def distinct_map)
  have idm: "card_id c = card_id m \<longleftrightarrow> c = m" if "c \<in> set db" for c
    using primary_key_unique [OF pk that m] by auto
  have Fid: "card_id (F c) = card_id c" for c by (simp add: F_def)
  have Fm: "F m = m\<lparr>priority := np, position := npos\<rparr>" by (simp add: F_def)
  have Fc: "F c = c\<lparr>position := position c + shift_delta bid (priority m) (position m) np npos c\<rparr>"
    if "c \<in> set db" "c \<noteq> m" for c using idm that by (simp add: F_def)
  have old: "group_ok db b p" for b p
    using inv by (simp add: position_invariant_all_groups)
  have oldR: "0 \<le> position c \<and> position c < int (length (column_group db (board_id c) (priority c)))"
    if "c \<in> set db" for c
    using old [of "board_id c" "priority c"] that
    unfolding group_ok_iff [OF dist] by (simp add: in_group_def)
  have oldI: "c = d" if "c \<in> set db" "d \<in> set db" "board_id c = board_id d"
    "priority c = priority d" "position c = position d" for c d
    using old [of "board_id c" "priority c"] that
    unfolding group_ok_iff [OF dist] by (simp add: in_group_def)
  have len: "length (filter (\<lambda>c. in_group b p (F c)) db) + (if in_group b p m then 1 else 0)
       = length (column_group db b p) + (if b = bid \<and> p = np then 1 else 0)" for b p
  proof -
    have "\<forall>c \<in> set db. c \<noteq> m \<longrightarrow> in_group b p (F c) = in_group b p c"
      using Fc by (simp add: in_group_def)
    from length_filter_change_one [OF dist m this]
    have "length (filter (\<lambda>c. in_group b p (F c)) db) + (if in_group b p m then 1 else 0)
       = length (filter (in_group b p) db) + (if in_group b p (F m) then 1 else 0)" .
    moreover have "in_group b p (F m) \<longleftrightarrow> b = bid \<and> p = np"
      using bm by (auto simp: Fm in_group_def)
    ultimately show ?thesis by (simp only: column_group_def)
  qed
  have "group_ok (map F db) b p" for b p
  proof (rule group_ok_mapI [OF pk Fid])
    fix c assume c: "c \<in> set db" and g: "in_group b p (F c)"
    show "0 \<le> position (F c) \<and>
          position (F c) < int (length (filter (\<lambda>c. in_group b p (F c)) db))"
    proof (cases "c = m")
      case True
      then show ?thesis
        using g len [of b p] lo hi bm by (auto simp: Fm in_group_def split: if_splits)
    next
      case False
      have ne: "board_id c = board_id m \<Longrightarrow> priority c = priority m \<Longrightarrow> position c \<noteq> position m"
        using oldI [OF c m] False by blast
      show ?thesis
        using g len [of b p] oldR [OF c] oldR [OF m] bm ne lo hi
        unfolding Fc [OF c False] shift_delta_def in_group_def
        by (auto split: if_splits)
    qed
  next
    fix c d assume c: "c \<in> set db" and d: "d \<in> set db"
      and gc: "in_group b p (F c)" and gd: "in_group b p (F d)"
      and eq: "position (F c) = position (F d)"
    have ne: "x \<in> set db \<Longrightarrow> x \<noteq> m \<Longrightarrow> board_id x = board_id m \<Longrightarrow>
              priority x = priority m \<Longrightarrow> position x \<noteq> position m" for x
      using oldI [OF _ m] by blast
    show "c = d"
    proof (cases "c = m")
      case cm: True
      show ?thesis
      proof (cases "d = m")
        case True
        then show ?thesis using cm by simp
      next
        case False
        have "False"
          using gc gd eq ne [OF d False] bm
          unfolding cm Fm Fc [OF d False] shift_delta_def in_group_def
          by (auto split: if_splits)
        then show ?thesis ..
      qed
    next
      case cm: False
      show ?thesis
      proof (cases "d = m")
        case True
        have "False"
          using gc gd eq ne [OF c cm] bm
          unfolding True Fm Fc [OF c cm] shift_delta_def in_group_def
          by (auto split: if_splits)
        then show ?thesis ..
      next
        case False
        have "board_id c = board_id d \<and> priority c = priority d"
          using gc gd unfolding Fc [OF c cm] Fc [OF d False] in_group_def by simp
        moreover have "position c = position d"
          using gc gd eq ne [OF c cm] ne [OF d False] bm
          unfolding Fc [OF c cm] Fc [OF d False] shift_delta_def in_group_def
          by (auto split: if_splits)
        ultimately show ?thesis using oldI [OF c d] by simp
      qed
    qed
  qed
  then show ?thesis unfolding res by (simp add: position_invariant_def)
qed

theorem valid_move_keeps_invariant_witness:
  "primary_key [mk_card 1 1 ''high'' 0, mk_card 2 1 ''high'' 1, mk_card 3 1 ''high'' 2] \<and>
   mk_card 1 1 ''high'' 0 \<in> set [mk_card 1 1 ''high'' 0, mk_card 2 1 ''high'' 1, mk_card 3 1 ''high'' 2] \<and>
   PUT [mk_card 1 1 ''high'' 0, mk_card 2 1 ''high'' 1, mk_card 3 1 ''high'' 2] (move_req 1 1 ''high'' 2)
     = (Success, [mk_card 1 1 ''high'' 2, mk_card 2 1 ''high'' 0, mk_card 3 1 ''high'' 1]) \<and>
   group_ok (snd (PUT [mk_card 1 1 ''high'' 0, mk_card 2 1 ''high'' 1, mk_card 3 1 ''high'' 2]
                      (move_req 1 1 ''high'' 2))) 1 ''high''"
proof -
  let ?db = "[mk_card 1 1 ''high'' 0, mk_card 2 1 ''high'' 1, mk_card 3 1 ''high'' 2]"
  have pk: "primary_key ?db" by (simp add: primary_key_def mk_card_def)
  have inv: "position_invariant ?db" by (simp add: eval_defs)
  have m: "mk_card 1 1 ''high'' 0 \<in> set ?db" by simp
  have bm: "board_id (mk_card 1 1 ''high'' 0) = 1" by (simp add: mk_card_def)
  have hi: "2 \<le> (if priority (mk_card 1 1 ''high'' 0) = ''high''
                  then int (length (column_group ?db 1 ''high'')) - 1
                  else int (length (column_group ?db 1 ''high'')))"
    by (simp add: mk_card_def column_group_def in_group_def)
  have cid: "card_id (mk_card 1 1 ''high'' 0) = 1" by (simp add: mk_card_def)
  have "position_invariant (snd (PUT ?db (move_req 1 1 ''high'' 2)))"
    using valid_move_keeps_invariant [OF pk inv m bm _ hi] unfolding cid by simp
  then have "group_ok (snd (PUT ?db (move_req 1 1 ''high'' 2))) 1 ''high''"
    by (simp only: position_invariant_all_groups)
  moreover have "PUT ?db (move_req 1 1 ''high'' 2)
     = (Success, [mk_card 1 1 ''high'' 2, mk_card 2 1 ''high'' 0, mk_card 3 1 ''high'' 1])"
    by (simp add: eval_defs)
  ultimately show ?thesis using pk m by simp
qed

section \<open>Deleting a card\<close>

text \<open>
  Claim C9, as stated, fails. A, B, C at 0, 1, 2; deleting A leaves B at 1 and C at 2:
  no sibling is decremented and the group is no longer in order.
\<close>

theorem deleteCard_leaves_gap:
  "group_ok [mk_card 1 1 ''high'' 0, mk_card 2 1 ''high'' 1, mk_card 3 1 ''high'' 2] 1 ''high'' \<and>
   deleteCard [mk_card 1 1 ''high'' 0, mk_card 2 1 ''high'' 1, mk_card 3 1 ''high'' 2] 1
     = [mk_card 2 1 ''high'' 1, mk_card 3 1 ''high'' 2] \<and>
   \<not> group_ok (deleteCard [mk_card 1 1 ''high'' 0, mk_card 2 1 ''high'' 1, mk_card 3 1 ''high'' 2] 1)
        1 ''high''"
  by (simp add: deleteCard_def eval_defs)

lemma interval_minus_point:
  fixes p n :: int
  assumes "0 \<le> p" "p < n"
  shows "({0..<n} - {p} = {0..<n - 1}) \<longleftrightarrow> (p + 1 = n)"
proof
  assume eq: "{0..<n} - {p} = {0..<n - 1}"
  show "p + 1 = n"
  proof (rule ccontr)
    assume "p + 1 \<noteq> n"
    then have "p \<in> {0..<n - 1}" using assms by simp
    then have "p \<in> {0..<n} - {p}" using eq by simp
    then show False by simp
  qed
next
  assume "p + 1 = n"
  then show "{0..<n} - {p} = {0..<n - 1}" by auto
qed

text \<open>
  Claim C9, amended. In a table with pairwise different ids, \<open>deleteCard\<close> removes the row
  with the given id and leaves every other row, in the same order and with every field,
  position included, as it was. For a card at position \<open>p\<close> of a group of \<open>n\<close> cards in
  order, the group then has \<open>n - 1\<close> cards whose positions are \<open>0, ..., n - 1\<close> without
  \<open>p\<close>; it is in order again exactly when the deleted card was the last one, \<open>p = n - 1\<close>.
\<close>

theorem deleteCard_removes_row_only:
  assumes pk: "primary_key db" and c: "c \<in> set db"
    and ok: "group_ok db (board_id c) (priority c)"
  shows "deleteCard db (card_id c) = filter (\<lambda>d. d \<noteq> c) db \<and>
     length (group_positions (deleteCard db (card_id c)) (board_id c) (priority c)) + 1
       = length (group_positions db (board_id c) (priority c)) \<and>
     set (group_positions (deleteCard db (card_id c)) (board_id c) (priority c))
       = {0..<int (length (group_positions db (board_id c) (priority c)))} - {position c} \<and>
     (group_ok (deleteCard db (card_id c)) (board_id c) (priority c) \<longleftrightarrow>
        position c + 1 = int (length (group_positions db (board_id c) (priority c))))"
proof -
  define G where "G = column_group db (board_id c) (priority c)"
  define G' where "G' = filter (\<lambda>d. d \<noteq> c) G"
  have dist: "distinct db" using pk by (simp add: primary_key_def distinct_map)
  have del: "deleteCard db (card_id c) = filter (\<lambda>d. d \<noteq> c) db"
    unfolding deleteCard_def
    using primary_key_unique [OF pk _ c] by (intro filter_cong) auto
  have G'eq: "column_group (deleteCard db (card_id c)) (board_id c) (priority c) = G'"
    unfolding del G'_def G_def column_group_def by (simp add: conj_commute)
  have cG: "c \<in> set G" using c by (simp add: G_def column_group_def in_group_def)
  have dG: "distinct G" using dist by (simp add: G_def column_group_def)
  have perm: "distinct (map position G)" "set (map position G) = {0..<int (length G)}"
    using ok unfolding group_ok_def group_positions_def G_def [symmetric] sorted_positions_iff
    by simp_all
  have inj: "inj_on position (set G)" using perm(1) by (simp add: distinct_map)
  have len: "length G' + 1 = length G"
    using length_filter_change_one [OF dG cG, of "\<lambda>d. d \<noteq> c" "\<lambda>_. True"]
    by (simp add: G'_def)
  have "set (map position G') = position ` (set G - {c})"
    by (auto simp: G'_def)
  also have "\<dots> = position ` set G - {position c}"
    using inj cG by (auto simp: inj_on_def)
  finally have setG': "set (map position G') = {0..<int (length G)} - {position c}"
    using perm(2) by simp
  have dG': "distinct (map position G')"
    using perm(1) unfolding G'_def by (rule distinct_map_filter)
  have pc: "0 \<le> position c \<and> position c < int (length G)"
    using perm(2) cG by (metis atLeastLessThan_iff image_eqI set_map)
  have "group_ok (deleteCard db (card_id c)) (board_id c) (priority c) \<longleftrightarrow>
        set (map position G') = {0..<int (length G')}"
    unfolding group_ok_def group_positions_def G'eq sorted_positions_iff using dG' by simp
  also have "\<dots> \<longleftrightarrow> position c + 1 = int (length G)"
  proof -
    have "int (length G') = int (length G) - 1" using len by simp
    then show ?thesis
      unfolding setG' using interval_minus_point [of "position c" "int (length G)"] pc by simp
  qed
  finally show ?thesis
    using del len setG' unfolding group_positions_def G'eq G_def [symmetric] by simp
qed

theorem deleteCard_removes_row_only_witness:
  "primary_key [mk_card 1 1 ''high'' 0, mk_card 2 1 ''high'' 1, mk_card 3 1 ''high'' 2] \<and>
   group_ok [mk_card 1 1 ''high'' 0, mk_card 2 1 ''high'' 1, mk_card 3 1 ''high'' 2] 1 ''high'' \<and>
   deleteCard [mk_card 1 1 ''high'' 0, mk_card 2 1 ''high'' 1, mk_card 3 1 ''high'' 2] 3
     = [mk_card 1 1 ''high'' 0, mk_card 2 1 ''high'' 1] \<and>
   group_ok (deleteCard [mk_card 1 1 ''high'' 0, mk_card 2 1 ''high'' 1, mk_card 3 1 ''high'' 2] 3)
     1 ''high''"
proof -
  let ?db = "[mk_card 1 1 ''high'' 0, mk_card 2 1 ''high'' 1, mk_card 3 1 ''high'' 2]"
  have pk: "primary_key ?db" by (simp add: primary_key_def mk_card_def)
  have c: "mk_card 3 1 ''high'' 2 \<in> set ?db" by simp
  have f: "card_id (mk_card 3 1 ''high'' 2) = 3" "board_id (mk_card 3 1 ''high'' 2) = 1"
    "priority (mk_card 3 1 ''high'' 2) = ''high''" "position (mk_card 3 1 ''high'' 2) = 2"
    by (simp_all add: mk_card_def)
  have ok: "group_ok ?db 1 ''high''" by (simp add: eval_defs)
  have ok': "group_ok ?db (board_id (mk_card 3 1 ''high'' 2)) (priority (mk_card 3 1 ''high'' 2))"
    unfolding f by (rule ok)
  have n: "int (length (group_positions ?db 1 ''high'')) = 3"
    by (simp add: group_positions_def column_group_def in_group_def mk_card_def)
  have "group_ok (deleteCard ?db (card_id (mk_card 3 1 ''high'' 2)))
            (board_id (mk_card 3 1 ''high'' 2)) (priority (mk_card 3 1 ''high'' 2)) \<longleftrightarrow>
        position (mk_card 3 1 ''high'' 2) + 1
          = int (length (group_positions ?db (board_id (mk_card 3 1 ''high'' 2))
                                          (priority (mk_card 3 1 ''high'' 2))))"
    using deleteCard_removes_row_only [OF pk c ok'] by blast
  then have "group_ok (deleteCard ?db 3) 1 ''high''"
    unfolding f n by simp
  moreover have "deleteCard ?db 3 = [mk_card 1 1 ''high'' 0, mk_card 2 1 ''high'' 1]"
    by (simp add: deleteCard_def mk_card_def)
  ultimately show ?thesis using pk ok by simp
qed

end
